theory Spec2Isabelle
  imports Main "HOL-Library.Multiset"
begin

section \<open>Survey submission: the pending-survey queue of the extension\<close>

text \<open>
  The development embeds the \<^verbatim>\<open>SurveySubmission\<close> namespace of the extension: the
  constructors of its values, the exponential backoff, the operations on the IndexedDB
  object store \<^verbatim>\<open>PendingSurveyRecords\<close>, the XHR client and the queue processor
  together with its alarm listener.

  Conventions of the embedding.
  \<^item> Times are milliseconds since the epoch, as \<^verbatim>\<open>Date.now()\<close> returns them, and are
    integers; the clock is an input (\<open>now\<close>) of every operation that reads it.
  \<^item> JavaScript numbers are IEEE doubles. The numbers of this program are integers
    or infinite, and the model computes them as the doubles do: every result is
    rounded to 53 significant bits, ties to even, and overflows to infinity.
  \<^item> A promise is modelled by the way it settles; callbacks run to completion one
    after the other, each database operation in its own transaction.
  \<^item> The browser (IndexedDB, XMLHttpRequest, \<^verbatim>\<open>Date.prototype.toISOString\<close>) is not part
    of the repository: its behaviour is an input of the model (\<open>environment\<close>, the
    \<open>network\<close> and \<open>toISOString\<close> arguments) or written down from the standards where
    the code depends on it (key generator, index order, state of the XHR object when
    an event fires).
\<close>

subsection \<open>Settings\<close>

definition SERVER_URL :: string where
  "SERVER_URL = ''https://chrome-experience-sampling.appspot.com''"

definition SUBMIT_SURVEY_ACTION :: string where
  "SUBMIT_SURVEY_ACTION = ''/_ah/api/cesp/v1/submitsurvey''"

definition XHR_TIMEOUT :: int where
  "XHR_TIMEOUT = 4000"

definition QUEUE_ALARM_NAME :: string where
  "QUEUE_ALARM_NAME = ''surveySubmissionAlarm''"

subsection \<open>Numbers\<close>

text \<open>
  The doubles that occur in this program: the integers among them, and the infinities.
  \<open>Finite i\<close> stands for the double of value \<open>i\<close>. The order is the order of the
  doubles, which is also the order of IndexedDB keys.
\<close>

datatype number = NegInfinity | Finite int | Infinity

instantiation number :: linorder
begin

fun less_eq_number :: "number \<Rightarrow> number \<Rightarrow> bool" where
  "less_eq_number NegInfinity y = True"
| "less_eq_number (Finite a) NegInfinity = False"
| "less_eq_number (Finite a) (Finite b) = (a \<le> b)"
| "less_eq_number (Finite a) Infinity = True"
| "less_eq_number Infinity NegInfinity = False"
| "less_eq_number Infinity (Finite b) = False"
| "less_eq_number Infinity Infinity = True"

definition less_number :: "number \<Rightarrow> number \<Rightarrow> bool" where
  "less_number x y = (x \<le> y \<and> \<not> y \<le> x)"

instance
proof
  fix x y z :: number
  show "(x < y) = (x \<le> y \<and> \<not> y \<le> x)"
    by (simp add: less_number_def)
  show "x \<le> x"
    by (cases x) simp_all
  show "x \<le> y \<Longrightarrow> y \<le> z \<Longrightarrow> x \<le> z"
    by (cases x; cases y; cases z) simp_all
  show "x \<le> y \<Longrightarrow> y \<le> x \<Longrightarrow> x = y"
    by (cases x; cases y) simp_all
  show "x \<le> y \<or> y \<le> x"
    by (cases x; cases y) auto
qed

end

text \<open>The number of bits of a natural number.\<close>

function bit_length :: "nat \<Rightarrow> nat" where
  "bit_length x = (if x = 0 then 0 else Suc (bit_length (x div 2)))"
  by pat_completeness auto
termination
  by (relation "measure (\<lambda>x. x)") auto

declare bit_length.simps [simp del]

text \<open>
  Rounding a natural number to 53 significant bits, to the nearest and to the even
  neighbour in a tie: \<open>e\<close> is the number of bits that do not fit, \<open>q\<close> the 53 leading
  bits and \<open>r\<close> what is cut off.
\<close>

definition round53 :: "nat \<Rightarrow> nat" where
  "round53 x =
     (let e = bit_length x - 53; q = x div 2 ^ e; r = x mod 2 ^ e
      in if 2 ^ e < 2 * r \<or> (2 * r = 2 ^ e \<and> odd q) then (q + 1) * 2 ^ e else q * 2 ^ e)"

text \<open>
  The double nearest to an integer. A magnitude that rounds to \<open>2^1024\<close> or more is
  beyond the largest double, \<open>(2^53 - 1) * 2^971\<close>, and gives an infinity.
\<close>

definition round_to_double :: "int \<Rightarrow> number" where
  "round_to_double x =
     (let m = round53 (nat \<bar>x\<bar>)
      in if 2 ^ 1024 \<le> m then (if x < 0 then NegInfinity else Infinity)
         else Finite (if x < 0 then - int m else int m))"

text \<open>\<^verbatim>\<open>Math.pow(2, n)\<close> for a count \<open>n\<close>.\<close>

definition Math_pow2 :: "nat \<Rightarrow> number" where
  "Math_pow2 n = round_to_double (2 ^ n)"

text \<open>
  \<^verbatim>\<open>x + c\<close> (and \<^verbatim>\<open>c + x\<close>, and \<^verbatim>\<open>x - 1\<close> as \<open>c = - 1\<close>) for a finite double \<open>c\<close> of integer
  value, and \<^verbatim>\<open>x * c\<close> for such a \<open>c\<close> that is positive.
\<close>

fun number_plus :: "number \<Rightarrow> int \<Rightarrow> number" where
  "number_plus (Finite a) c = round_to_double (a + c)"
| "number_plus Infinity c = Infinity"
| "number_plus NegInfinity c = NegInfinity"

fun number_times :: "number \<Rightarrow> int \<Rightarrow> number" where
  "number_times (Finite a) c = round_to_double (a * c)"
| "number_times Infinity c = Infinity"
| "number_times NegInfinity c = NegInfinity"

text \<open>
  The time values of ECMAScript, which \<^verbatim>\<open>Date.now()\<close> returns: integers of magnitude at
  most \<open>8.64 * 10^15\<close>, all of them doubles.
\<close>

definition time_value :: "int \<Rightarrow> bool" where
  "time_value t = (\<bar>t\<bar> \<le> 8640000000000000)"

subsection \<open>Values\<close>

text \<open>\<^verbatim>\<open>SurveySubmission.Response\<close>: a question and the answer given to it.\<close>

record Response =
  question :: string
  answer :: string

text \<open>
  \<^verbatim>\<open>SurveySubmission.SurveyRecord\<close>: a completed survey. \<open>dateTaken\<close> is a \<^verbatim>\<open>Date\<close>,
  held as its time value.
\<close>

record SurveyRecord =
  type :: string
  participantId :: string
  dateTaken :: int
  responses :: "Response list"

text \<open>\<^verbatim>\<open>SurveySubmission.PendingSurveyRecord\<close>: a completed survey waiting to be sent.\<close>

record PendingSurveyRecord =
  surveyRecord :: SurveyRecord
  timeToSend :: number
  tries :: nat

subsection \<open>Backoff\<close>

text \<open>\<^verbatim>\<open>return (Math.pow(2, tries) - 1) * 60000;\<close>\<close>

definition calculateSendingDelay :: "nat \<Rightarrow> number" where
  "calculateSendingDelay n = number_times (number_plus (Math_pow2 n) (- 1)) 60000"

subsection \<open>Promises and exceptions\<close>

datatype exn = TypeError | ReferenceError

text \<open>
  What a promise is rejected with: an exception thrown in its executor or in a
  \<^verbatim>\<open>then\<close> callback, the HTTP status (\<^verbatim>\<open>reject(xhr.status)\<close>),
  \<^verbatim>\<open>Error("Failed to save record")\<close>, or the error event of a database request.
\<close>

datatype reason = Thrown exn | HttpStatus nat | SaveFailed | RequestFailed

text \<open>
  How a promise ends. \<open>Unsettled None\<close>: neither \<^verbatim>\<open>resolve\<close> nor \<^verbatim>\<open>reject\<close> is ever
  called. \<open>Unsettled (Some e)\<close>: the event handler that should have settled the promise
  threw \<open>e\<close>; nothing catches an exception of an event handler, so the promise stays
  pending as well.
\<close>

datatype settled = Resolved | Rejected reason | Unsettled "exn option"

subsection \<open>The object store\<close>

text \<open>
  \<^verbatim>\<open>setupPendingResponsesDatabase\<close> creates the object store with
  \<^verbatim>\<open>{keyPath: 'id', autoIncrement: true}\<close> and the non-unique index \<^verbatim>\<open>timeToSend\<close>.
  A stored object is its \<^verbatim>\<open>PendingSurveyRecord\<close> together with the key the store put
  under \<^verbatim>\<open>id\<close>; the objects are held in key order, as the store holds them. The key
  generator of a new store starts at 1.
\<close>

record store =
  keyGenerator :: nat
  objects :: "(nat \<times> PendingSurveyRecord) list"

definition setupPendingResponsesDatabase :: store where
  "setupPendingResponsesDatabase = \<lparr>keyGenerator = 1, objects = []\<rparr>"

text \<open>Storing a record under a key: in key order, replacing the record of that key.\<close>

fun store_record :: "nat \<Rightarrow> 'v \<Rightarrow> (nat \<times> 'v) list \<Rightarrow> (nat \<times> 'v) list" where
  "store_record k v [] = [(k, v)]"
| "store_record k v ((k', v') # es) =
     (if k < k' then (k, v) # (k', v') # es
      else if k = k' then (k, v) # es
      else (k', v') # store_record k v es)"

text \<open>
  \<^verbatim>\<open>store.add(value)\<close> for a value without \<^verbatim>\<open>id\<close>: the key is the generator's current
  number, the generator moves on, and the request fails (\<open>None\<close>) when the key is taken.
\<close>

definition idb_add :: "PendingSurveyRecord \<Rightarrow> store \<Rightarrow> (nat \<times> store) option" where
  "idb_add v st =
     (let k = keyGenerator st
      in if k \<in> fst ` set (objects st) then None
         else Some (k, \<lparr>keyGenerator = Suc k, objects = store_record k v (objects st)\<rparr>))"

text \<open>\<^verbatim>\<open>store.get(id)\<close>: the stored object, \<open>None\<close> for the result \<^verbatim>\<open>undefined\<close>.\<close>

definition idb_get :: "nat \<Rightarrow> store \<Rightarrow> PendingSurveyRecord option" where
  "idb_get k st = map_of (objects st) k"

text \<open>
  \<^verbatim>\<open>store.put(record)\<close> for a record whose \<^verbatim>\<open>id\<close> is \<open>k\<close>: an explicit key at or above
  the generator's number moves the generator past it.
\<close>

definition idb_put :: "nat \<Rightarrow> PendingSurveyRecord \<Rightarrow> store \<Rightarrow> store" where
  "idb_put k v st =
     \<lparr>keyGenerator = max (keyGenerator st) (Suc k), objects = store_record k v (objects st)\<rparr>"

text \<open>\<^verbatim>\<open>store.delete(id)\<close>: deleting a key that is not there changes nothing.\<close>

definition idb_delete :: "nat \<Rightarrow> store \<Rightarrow> store" where
  "idb_delete k st = st\<lparr>objects := filter (\<lambda>e. fst e \<noteq> k) (objects st)\<rparr>"

text \<open>
  \<^verbatim>\<open>store.index('timeToSend')\<close>: the stored objects in ascending order of \<^verbatim>\<open>timeToSend\<close>,
  objects of equal \<^verbatim>\<open>timeToSend\<close> in ascending order of their keys (the sort is stable
  and starts from the key order).
\<close>

definition index_timeToSend :: "store \<Rightarrow> (nat \<times> PendingSurveyRecord) list" where
  "index_timeToSend st = sort_key (\<lambda>e. timeToSend (snd e)) (objects st)"

text \<open>\<^verbatim>\<open>IDBKeyRange.upperBound(x)\<close>: the keys up to and including \<open>x\<close>.\<close>

definition upperBound :: "number \<Rightarrow> number \<Rightarrow> bool" where
  "upperBound x key = (key \<le> x)"

text \<open>\<^verbatim>\<open>index.openCursor(keyRange)\<close>: the entries of the index inside the range, in index order.\<close>

definition openCursor :: "(number \<Rightarrow> bool) \<Rightarrow> (nat \<times> PendingSurveyRecord) list \<Rightarrow> (nat \<times> PendingSurveyRecord) list" where
  "openCursor keyRange idx = filter (\<lambda>e. keyRange (timeToSend (snd e))) idx"

text \<open>
  The keys of a store are strictly increasing and below its key generator. The
  operations above keep it so.
\<close>

definition store_inv :: "store \<Rightarrow> bool" where
  "store_inv st =
     (sorted_wrt (<) (map fst (objects st)) \<and> list_all (\<lambda>k. k < keyGenerator st) (map fst (objects st)))"

subsection \<open>The environment of a database operation\<close>

datatype idb_request = RequestAdd | RequestGet | RequestPut | RequestDelete | RequestOpenCursor

text \<open>
  \<open>now\<close> is the time value that \<^verbatim>\<open>Date.now()\<close> returns during the operation; \<open>opens\<close> tells whether
  \<^verbatim>\<open>indexedDB.open\<close> succeeds, \<open>succeeds q\<close> whether a request of kind \<open>q\<close> fires
  \<^verbatim>\<open>onsuccess\<close> rather than \<^verbatim>\<open>onerror\<close>.
\<close>

record environment =
  now :: int
  opens :: bool
  succeeds :: "idb_request \<Rightarrow> bool"

text \<open>
  \<^verbatim>\<open>withObjectStore(storeName, mode, action)\<close>. When the database opens, the promise
  follows the promise that \<open>action\<close> returns; an action that returns \<^verbatim>\<open>undefined\<close>
  (\<open>None\<close>) makes \<^verbatim>\<open>action(objectStore).then\<close> throw a \<^verbatim>\<open>TypeError\<close> in the handler.
  When it does not open, the handler logs and returns \<^verbatim>\<open>Promise.reject()\<close> before it
  reaches \<^verbatim>\<open>reject(event)\<close>: the promise is never settled. The state \<open>st\<close> is what
  the action works on: the object store, for the queue processor together with what it
  hands to the submission client.
\<close>

definition withObjectStore ::
  "environment \<Rightarrow> ('s \<Rightarrow> settled option \<times> 's) \<Rightarrow> 's \<Rightarrow> settled \<times> 's" where
  "withObjectStore env action st =
     (if opens env then
        (case action st of
           (Some promise, st') \<Rightarrow> (promise, st')
         | (None, st') \<Rightarrow> (Unsettled (Some TypeError), st'))
      else (Unsettled None, st))"

subsection \<open>Saving, deleting and rescheduling\<close>

text \<open>
  \<^verbatim>\<open>saveSurveyRecord(surveyRecord, tries)\<close>; an omitted \<^verbatim>\<open>tries\<close> is \<open>None\<close>, and
  \<^verbatim>\<open>tries = tries || 0\<close> makes it 0. \<open>time\<close> is
  \<^verbatim>\<open>Date.now() + SurveySubmission.calculateSendingDelay(tries)\<close>.
\<close>

definition saveSurveyRecord ::
  "environment \<Rightarrow> SurveyRecord \<Rightarrow> nat option \<Rightarrow> store \<Rightarrow> settled \<times> store" where
  "saveSurveyRecord env record tries_arg st =
     (let n = (case tries_arg of None \<Rightarrow> 0 | Some t \<Rightarrow> t)
      in withObjectStore env
           (\<lambda>store.
              let time = number_plus (calculateSendingDelay n) (now env);
                  pendingSurveyRecord = \<lparr>surveyRecord = record, timeToSend = time, tries = n\<rparr>
              in if succeeds env RequestAdd then
                   (case idb_add pendingSurveyRecord store of
                      Some (k, store') \<Rightarrow> (Some Resolved, store')
                    | None \<Rightarrow> (Some (Rejected SaveFailed), store))
                 else (Some (Rejected SaveFailed), store))
           st)"

definition deleteSurveyRecord :: "environment \<Rightarrow> nat \<Rightarrow> store \<Rightarrow> settled \<times> store" where
  "deleteSurveyRecord env k st =
     withObjectStore env
       (\<lambda>store.
          if succeeds env RequestDelete then (Some Resolved, idb_delete k store)
          else (Some (Rejected RequestFailed), store))
       st"

text \<open>
  \<^verbatim>\<open>updateTimeToSend(id)\<close>. The success handler of \<^verbatim>\<open>store.get(id)\<close> reads
  \<^verbatim>\<open>record.tries\<close> without looking at the result: for a key that is not in the store
  the result is \<^verbatim>\<open>undefined\<close> and the read throws a \<^verbatim>\<open>TypeError\<close>; nothing is written.
  \<^verbatim>\<open>record.tries + 1\<close> is a sum of doubles, so it is rounded like every other.
\<close>

definition updateTimeToSend :: "environment \<Rightarrow> nat \<Rightarrow> store \<Rightarrow> settled \<times> store" where
  "updateTimeToSend env k st =
     withObjectStore env
       (\<lambda>store.
          if succeeds env RequestGet then
            (case idb_get k store of
               None \<Rightarrow> (Some (Unsettled (Some TypeError)), store)
             | Some record \<Rightarrow>
                 let record1 = record\<lparr>tries := round53 (tries record + 1)\<rparr>;
                     record2 = record1\<lparr>timeToSend :=
                       number_plus (calculateSendingDelay (tries record1)) (now env)\<rparr>
                 in if succeeds env RequestPut then (Some Resolved, idb_put k record2 store)
                    else (Some (Rejected RequestFailed), store))
          else (Some (Rejected RequestFailed), store))
       st"

subsection \<open>The submission client\<close>

text \<open>
  The objects that reach \<^verbatim>\<open>sendSurveyRecord\<close>: a \<^verbatim>\<open>SurveyRecord\<close>, which is what the
  function is written for, and the object literal
  \<^verbatim>\<open>{id: cursor.value.id, surveyRecord: cursor.value.surveyRecord}\<close> that the queue
  processor collects and hands to it.
\<close>

datatype js_object =
  SurveyRecordObject SurveyRecord
| QueuedSurveyObject nat SurveyRecord

text \<open>The object literal \<^verbatim>\<open>data\<close>, which \<^verbatim>\<open>JSON.stringify\<close> turns into the request body.\<close>

record survey_data =
  date_taken :: string
  participant_id :: string
  responses :: "Response list"
  survey_type :: string

record xhr_request =
  request_method :: string
  url :: string
  content_type :: string
  timeout :: int
  body :: survey_data

text \<open>
  The event that ends a request, and the state of the XHR object when its handler runs:
  \<^verbatim>\<open>load\<close> fires in state DONE (4) with the status of the response, \<^verbatim>\<open>error\<close> and
  \<^verbatim>\<open>timeout\<close> fire in state DONE with status 0.
\<close>

datatype xhr_event = OnLoad nat | OnError | OnTimeout

record xhr =
  readyState :: nat
  status :: nat

fun xhr_at :: "xhr_event \<Rightarrow> xhr" where
  "xhr_at (OnLoad s) = \<lparr>readyState = 4, status = s\<rparr>"
| "xhr_at OnError = \<lparr>readyState = 4, status = 0\<rparr>"
| "xhr_at OnTimeout = \<lparr>readyState = 4, status = 0\<rparr>"

text \<open>\<^verbatim>\<open>s.slice(-1)\<close> and \<^verbatim>\<open>s.slice(0, -1)\<close>.\<close>

definition slice_last :: "string \<Rightarrow> string" where
  "slice_last s = (if s = [] then [] else [last s])"

definition slice_but_last :: "string \<Rightarrow> string" where
  "slice_but_last s = butlast s"

text \<open>
  \<^verbatim>\<open>for (var i = 0; i < surveyRecord.responses.length; i++)
    data.responses.push(surveyRecord.responses[i]);\<close>
\<close>

function push_responses :: "Response list \<Rightarrow> nat \<Rightarrow> Response list \<Rightarrow> Response list" where
  "push_responses rs i acc =
     (if i < length rs then push_responses rs (Suc i) (acc @ [rs ! i]) else acc)"
  by pat_completeness auto
termination
  by (relation "measure (\<lambda>(rs, i, acc). length rs - i)") auto

declare push_responses.simps [simp del]

text \<open>The request that \<^verbatim>\<open>sendSurveyRecord\<close> builds and sends for a \<^verbatim>\<open>SurveyRecord\<close>.\<close>

definition survey_request :: "(int \<Rightarrow> string) \<Rightarrow> SurveyRecord \<Rightarrow> xhr_request" where
  "survey_request toISOString r =
     (let date0 = toISOString (dateTaken r);
          date1 = (if slice_last date0 = ''Z'' then slice_but_last date0 else date0);
          data = \<lparr>date_taken = date1, participant_id = participantId r, responses = [],
                  survey_type = type r\<rparr>;
          data' = data\<lparr>responses := push_responses (SurveyRecord.responses r) 0 (responses data)\<rparr>
      in \<lparr>request_method = ''POST'', url = SERVER_URL @ SUBMIT_SURVEY_ACTION,
          content_type = ''application/JSON'', timeout = XHR_TIMEOUT, body = data'\<rparr>)"

definition onLoadHandler :: "xhr \<Rightarrow> settled" where
  "onLoadHandler x =
     (if readyState x = 4 then
        (if status x = 204 then Resolved else Rejected (HttpStatus (status x)))
      else Unsettled None)"

definition onErrorHandler :: "xhr \<Rightarrow> settled" where
  "onErrorHandler x = Rejected (HttpStatus (status x))"

definition onTimeoutHandler :: "xhr \<Rightarrow> settled" where
  "onTimeoutHandler x = Rejected (HttpStatus (status x))"

text \<open>
  \<^verbatim>\<open>sendSurveyRecord(surveyRecord)\<close>: the request sent, if one is sent, and the way the
  returned promise settles. \<open>network\<close> gives the event that ends a request. For the
  object literal of the queue processor \<^verbatim>\<open>surveyRecord.dateTaken\<close> is \<^verbatim>\<open>undefined\<close>,
  so \<^verbatim>\<open>surveyRecord.dateTaken.toISOString()\<close> throws a \<^verbatim>\<open>TypeError\<close> in the executor
  of the promise, which rejects the promise before a request exists.
\<close>

fun sendSurveyRecord ::
  "(int \<Rightarrow> string) \<Rightarrow> (xhr_request \<Rightarrow> xhr_event) \<Rightarrow> js_object \<Rightarrow> xhr_request option \<times> settled" where
  "sendSurveyRecord toISOString network (SurveyRecordObject r) =
     (let request = survey_request toISOString r
      in (Some request,
          (case network request of
             OnLoad s \<Rightarrow> onLoadHandler (xhr_at (OnLoad s))
           | OnError \<Rightarrow> onErrorHandler (xhr_at OnError)
           | OnTimeout \<Rightarrow> onTimeoutHandler (xhr_at OnTimeout))))"
| "sendSurveyRecord toISOString network (QueuedSurveyObject k r) =
     (None, Rejected (Thrown TypeError))"

subsection \<open>The queue processor\<close>

text \<open>
  The success handler of the cursor: every entry appends
  \<^verbatim>\<open>{id: cursor.value.id, surveyRecord: cursor.value.surveyRecord}\<close> to
  \<^verbatim>\<open>surveysToSubmit\<close> and continues; after the last entry the collected list is handed on.
\<close>

fun cursor_onsuccess ::
  "(nat \<times> PendingSurveyRecord) list \<Rightarrow> js_object list \<Rightarrow> js_object list" where
  "cursor_onsuccess [] surveysToSubmit = surveysToSubmit"
| "cursor_onsuccess ((k, v) # entries) surveysToSubmit =
     cursor_onsuccess entries (surveysToSubmit @ [QueuedSurveyObject k (surveyRecord v)])"

text \<open>The objects that \<^verbatim>\<open>processQueue\<close> selects at time \<open>t\<close>.\<close>

definition due_entries :: "number \<Rightarrow> store \<Rightarrow> (nat \<times> PendingSurveyRecord) list" where
  "due_entries t st = openCursor (upperBound t) (index_timeToSend st)"

definition surveysToSubmit :: "number \<Rightarrow> store \<Rightarrow> js_object list" where
  "surveysToSubmit t st = cursor_onsuccess (due_entries t st) []"

text \<open>
  The callbacks of \<^verbatim>\<open>submissionPromise.then\<close>:
  \<^verbatim>\<open>function(response) { return SurveySubmission.deleteSurveyRecord(id); }\<close> and
  \<^verbatim>\<open>function(error) { return SurveySubmission.updateTimeToSend(id); }\<close>.
  No function around them and no script declares \<^verbatim>\<open>id\<close> (the callback of \<^verbatim>\<open>map\<close> has
  the promise as its only parameter), so evaluating the argument throws a
  \<^verbatim>\<open>ReferenceError\<close> before either function is called: the promise that \<^verbatim>\<open>then\<close>
  returns is rejected and the store is not touched. The result is that promise and the
  store.
\<close>

fun reconcile :: "environment \<Rightarrow> settled \<Rightarrow> store \<Rightarrow> settled \<times> store" where
  "reconcile env Resolved st = (Rejected (Thrown ReferenceError), st)"
| "reconcile env (Rejected error) st = (Rejected (Thrown ReferenceError), st)"
| "reconcile env (Unsettled e) st = (Unsettled None, st)"

text \<open>
  \<^verbatim>\<open>processQueue()\<close>. (The source closes the argument of \<^verbatim>\<open>Promise.all\<close> with a stray
  \<^verbatim>\<open>;\<close>; the model reads the function without it.) The action given to
  \<^verbatim>\<open>withObjectStore\<close> opens the cursor over the keys up to \<^verbatim>\<open>Date.now()\<close> and returns
  nothing; the request of the cursor has no error handler. The result is the way the
  returned promise ends, the store afterwards, and the objects that were handed to
  \<^verbatim>\<open>sendSurveyRecord\<close>, in the order of the calls.
\<close>

definition processQueue ::
  "environment \<Rightarrow> (int \<Rightarrow> string) \<Rightarrow> (xhr_request \<Rightarrow> xhr_event) \<Rightarrow> store \<Rightarrow>
     settled \<times> store \<times> js_object list" where
  "processQueue env toISOString network st =
     (case withObjectStore env
        (\<lambda>(store, handed).
           if succeeds env RequestOpenCursor then
             (let submissions = surveysToSubmit (Finite (now env)) store;
                  submissionPromises = map (\<lambda>s. snd (sendSurveyRecord toISOString network s)) submissions
              in (None, (fold (\<lambda>promise s. snd (reconcile env promise s)) submissionPromises store,
                         handed @ submissions)))
           else (None, (store, handed)))
        (st, [])
      of (promise, (st', handed)) \<Rightarrow> (promise, st', handed))"

subsection \<open>The alarm listener\<close>

record Alarm =
  name :: string

text \<open>
  \<^verbatim>\<open>processQueueAlarm(alarm)\<close>, the listener of \<^verbatim>\<open>chrome.alarms.onAlarm\<close>. For the alarm
  of the queue it calls \<^verbatim>\<open>processQueue()\<close>; the queue processor is the property
  \<^verbatim>\<open>SurveySubmission.processQueue\<close>, and no script declares a variable \<^verbatim>\<open>processQueue\<close>,
  so the call throws a \<^verbatim>\<open>ReferenceError\<close>. The result is the exception that leaves the
  listener, if any, and the store.
\<close>

definition processQueueAlarm :: "Alarm \<Rightarrow> store \<Rightarrow> exn option \<times> store" where
  "processQueueAlarm alarm st =
     (if name alarm \<noteq> QUEUE_ALARM_NAME then (None, st) else (Some ReferenceError, st))"

subsection \<open>Example data\<close>

text \<open>
  A survey, an environment in which the database works and the clock shows \<open>t\<close>, a
  store with two pending surveys, and a stand-in for \<^verbatim>\<open>toISOString\<close>.
\<close>

definition example_survey :: SurveyRecord where
  "example_survey =
     \<lparr>type = ''testType'', participantId = ''P0'', dateTaken = 900,
      responses = [\<lparr>question = ''q1'', answer = ''a1''\<rparr>, \<lparr>question = ''q2'', answer = ''a2''\<rparr>]\<rparr>"

definition working :: "int \<Rightarrow> environment" where
  "working t = \<lparr>now = t, opens = True, succeeds = (\<lambda>q. True)\<rparr>"

definition example_store :: store where
  "example_store =
     \<lparr>keyGenerator = 3,
      objects = [(1, \<lparr>surveyRecord = example_survey, timeToSend = Finite 1000, tries = 0\<rparr>),
                 (2, \<lparr>surveyRecord = example_survey, timeToSend = Finite 2000, tries = 0\<rparr>)]\<rparr>"

definition example_toISOString :: "int \<Rightarrow> string" where
  "example_toISOString t = ''1970-01-01T00:00:00.900Z''"

text \<open>
  A store whose only survey is to be sent at 1000000, one with a survey tried 42 times,
  and one with a survey saved with \<open>tries = 2^53\<close>.
\<close>

definition later_store :: store where
  "later_store =
     \<lparr>keyGenerator = 2,
      objects = [(1, \<lparr>surveyRecord = example_survey, timeToSend = Finite 1000000, tries = 0\<rparr>)]\<rparr>"

definition tried_store :: store where
  "tried_store =
     \<lparr>keyGenerator = 2,
      objects = [(1, \<lparr>surveyRecord = example_survey, timeToSend = Finite 0, tries = 42\<rparr>)]\<rparr>"

definition counted_store :: store where
  "counted_store =
     \<lparr>keyGenerator = 2,
      objects = [(1, \<lparr>surveyRecord = example_survey, timeToSend = Infinity,
                     tries = 9007199254740992\<rparr>)]\<rparr>"

section \<open>Properties\<close>

subsection \<open>Rounding\<close>

lemma number_less_simps [simp]:
  "Finite a < Finite b \<longleftrightarrow> a < b"
  "Finite a < Infinity"
  "\<not> Infinity < y"
  "NegInfinity < Finite b"
  by (cases y; auto simp: less_number_def)+

lemma bit_length_le_iff: "bit_length x \<le> n \<longleftrightarrow> x < 2 ^ n"
proof (induction n arbitrary: x)
  case 0
  show ?case by (subst bit_length.simps) simp
next
  case (Suc n)
  have "x div 2 < 2 ^ n \<longleftrightarrow> x < 2 * 2 ^ n" by auto
  with Suc [of "x div 2"] show ?case
    by (subst bit_length.simps) simp
qed

lemma bit_length_lower: "0 < x \<Longrightarrow> 2 ^ (bit_length x - 1) \<le> x"
proof -
  assume "0 < x"
  then have "0 < bit_length x" by (subst bit_length.simps) simp
  then have "\<not> bit_length x \<le> bit_length x - 1" by simp
  then show ?thesis unfolding bit_length_le_iff by simp
qed

lemma round53_small: "x < 2 ^ 53 \<Longrightarrow> round53 x = x"
proof -
  assume "x < 2 ^ 53"
  then have "bit_length x \<le> 53" by (simp only: bit_length_le_iff)
  then have "bit_length x - 53 = 0" by simp
  then show ?thesis by (simp add: round53_def)
qed

lemma round53_representable:
  assumes "m < 2 ^ 53"
  shows "round53 (m * 2 ^ k) = m * 2 ^ k"
proof -
  let ?e = "bit_length (m * 2 ^ k) - 53"
  have "m * 2 ^ k < 2 ^ 53 * 2 ^ k"
    using assms by simp
  then have "m * 2 ^ k < 2 ^ (53 + k)"
    by (simp add: power_add)
  then have "bit_length (m * 2 ^ k) \<le> 53 + k"
    by (simp only: bit_length_le_iff)
  then have "?e \<le> k" by simp
  then have "(2::nat) ^ ?e dvd 2 ^ k"
    by (rule le_imp_power_dvd)
  then have dvd: "(2::nat) ^ ?e dvd m * 2 ^ k"
    by (rule dvd_mult)
  then have "(m * 2 ^ k) mod 2 ^ ?e = 0" and "(m * 2 ^ k) div 2 ^ ?e * 2 ^ ?e = m * 2 ^ k"
    by simp_all
  then show ?thesis
    by (simp add: round53_def Let_def)
qed

lemma bit_length_pow2_minus1:
  assumes "0 < n"
  shows "bit_length (2 ^ n - 1) = n"
proof (rule antisym)
  have "(2::nat) ^ n - 1 < 2 ^ n" by simp
  then show "bit_length (2 ^ n - 1) \<le> n" by (simp only: bit_length_le_iff)
next
  obtain k where n: "n = Suc k" using assms by (cases n) auto
  have "(1::nat) \<le> 2 ^ k" by simp
  then have "\<not> (2::nat) ^ n - 1 < 2 ^ k"
    by (simp add: n)
  then have "\<not> bit_length (2 ^ n - 1) \<le> k"
    unfolding bit_length_le_iff .
  then show "n \<le> bit_length (2 ^ n - 1)"
    by (simp add: n)
qed

lemma div_mod_decomp:
  "r < d \<Longrightarrow> (a * d + r) div d = a \<and> (a * d + r) mod d = (r::nat)"
  by simp

lemma round53_pow2_minus1:
  assumes "54 \<le> n"
  shows "round53 (2 ^ n - 1) = 2 ^ n"
proof -
  define e where "e = n - 53"
  have n: "n = 53 + e" and e: "1 \<le> e"
    using assms by (simp_all add: e_def)
  have "0 < n" using assms by simp
  then have "bit_length (2 ^ n - 1) = n"
    by (rule bit_length_pow2_minus1)
  then have bl: "bit_length (2 ^ n - 1) - 53 = e"
    by (simp only: e_def)
  have one: "(1::nat) \<le> 2 ^ e" by simp
  have split: "(2::nat) ^ n - 1 = (2 ^ 53 - 1) * 2 ^ e + (2 ^ e - 1)"
    using one by (simp add: n power_add algebra_simps)
  have lt: "(2::nat) ^ e - 1 < 2 ^ e" by simp
  have q: "(2 ^ n - 1) div 2 ^ e = (2 ^ 53 - 1 :: nat)"
    and r: "(2 ^ n - 1) mod 2 ^ e = (2 ^ e - 1 :: nat)"
    using div_mod_decomp [OF lt, of "2 ^ 53 - 1"] by (simp_all only: split)
  have odd: "odd (2 ^ 53 - 1 :: nat)" by simp
  have up: "(2::nat) ^ e < 2 * (2 ^ e - 1) \<or> 2 * (2 ^ e - 1) = (2::nat) ^ e"
  proof (cases "e = 1")
    case True
    then show ?thesis by simp
  next
    case False
    with e obtain j where "e = Suc (Suc j)"
      by (cases e; cases "e - 1") auto
    then have "(4::nat) \<le> 2 ^ e" by simp
    then have "(2::nat) ^ e < 2 * (2 ^ e - 1)" by linarith
    then show ?thesis ..
  qed
  have "round53 (2 ^ n - 1) = (2 ^ 53 - 1 + 1) * 2 ^ e"
    unfolding round53_def bl Let_def q r using up odd by auto
  also have "\<dots> = 2 ^ n"
    by (simp add: n power_add)
  finally show ?thesis .
qed

lemma round53_large:
  assumes "2 ^ 53 \<le> x"
  shows "2 ^ 53 \<le> round53 x"
proof -
  define e where "e = bit_length x - 53"
  have "\<not> x < 2 ^ 53" using assms by simp
  then have "\<not> bit_length x \<le> 53" unfolding bit_length_le_iff .
  then have bl: "bit_length x = 53 + e" by (simp add: e_def)
  have "0 < x" using assms by (simp add: order_less_le_trans [of 0 "2 ^ 53"])
  then have "2 ^ (bit_length x - 1) \<le> x" by (rule bit_length_lower)
  then have low: "2 ^ 52 * 2 ^ e \<le> x"
    by (simp add: bl power_add)
  then have "2 ^ 52 * 2 ^ e div 2 ^ e \<le> x div 2 ^ e"
    by (rule div_le_mono)
  then have q: "2 ^ 52 \<le> x div 2 ^ e" by simp
  have "1 \<le> e"
    using \<open>\<not> bit_length x \<le> 53\<close> by (simp add: e_def)
  then have "(2::nat) ^ 1 \<le> 2 ^ e"
    by (rule power_increasing) simp
  then have "(2::nat) ^ 52 * 2 ^ 1 \<le> 2 ^ 52 * 2 ^ e"
    by (rule mult_le_mono2)
  then have big: "(2::nat) ^ 53 \<le> 2 ^ 52 * 2 ^ e" by simp
  from q have "2 ^ 52 * 2 ^ e \<le> x div 2 ^ e * 2 ^ e"
    by (rule mult_le_mono1)
  moreover have "x div 2 ^ e * 2 ^ e \<le> (x div 2 ^ e + 1) * 2 ^ e"
    by simp
  ultimately have "2 ^ 53 \<le> x div 2 ^ e * 2 ^ e" and "2 ^ 53 \<le> (x div 2 ^ e + 1) * 2 ^ e"
    using big by linarith+
  then show ?thesis
    unfolding round53_def Let_def e_def [symmetric] by simp
qed

lemma round_to_double_exact:
  assumes "\<bar>x\<bar> \<le> 2 ^ 53"
  shows "round_to_double x = Finite x"
proof -
  have "round53 (nat \<bar>x\<bar>) = nat \<bar>x\<bar>"
  proof (cases "\<bar>x\<bar> = 2 ^ 53")
    case True
    then have "nat \<bar>x\<bar> = 1 * 2 ^ 53" by simp
    then show ?thesis
      using round53_representable [of 1 53] by simp
  next
    case False
    with assms have "nat \<bar>x\<bar> < 2 ^ 53" by (simp add: nat_less_iff)
    then show ?thesis by (rule round53_small)
  qed
  moreover have "nat \<bar>x\<bar> < 2 ^ 1024"
  proof -
    have "nat \<bar>x\<bar> \<le> 2 ^ 53" using assms by (simp add: nat_le_iff)
    also have "\<dots> < (2::nat) ^ 1024" by (rule power_strict_increasing) simp_all
    finally show ?thesis .
  qed
  ultimately show ?thesis
    by (simp add: round_to_double_def Let_def)
qed

lemma round_to_double_representable:
  assumes "m < 2 ^ 53"
  shows "round_to_double (int (m * 2 ^ k)) =
           (if 2 ^ 1024 \<le> m * 2 ^ k then Infinity else Finite (int (m * 2 ^ k)))"
  using round53_representable [OF assms, of k]
  by (simp add: round_to_double_def Let_def del: of_nat_mult of_nat_power)

lemma round_to_double_of_nat:
  "round_to_double (int m) =
     (if 2 ^ 1024 \<le> round53 m then Infinity else Finite (int (round53 m)))"
  by (simp add: round_to_double_def Let_def)

lemma round_to_double_finite:
  assumes "m < 2 ^ 53" and "m * 2 ^ k < 2 ^ 1024"
  shows "round_to_double (int (m * 2 ^ k)) = Finite (int (m * 2 ^ k))"
  unfolding round_to_double_of_nat round53_representable [OF assms(1)]
  using assms(2) by simp

lemma round_to_double_infinite:
  assumes "m < 2 ^ 53" and "2 ^ 1024 \<le> m * 2 ^ k"
  shows "round_to_double (int (m * 2 ^ k)) = Infinity"
  unfolding round_to_double_of_nat round53_representable [OF assms(1)]
  using assms(2) by simp

lemma pow2_less: "n < k \<Longrightarrow> (2::nat) ^ n < 2 ^ k"
  by (rule power_strict_increasing) simp_all

lemma pow2_le: "n \<le> k \<Longrightarrow> (2::nat) ^ n \<le> 2 ^ k"
  by (rule power_increasing) simp_all

lemma Math_pow2_exact:
  assumes "n \<le> 1023"
  shows "Math_pow2 n = Finite (2 ^ n)"
proof -
  have "(2::nat) ^ n < 2 ^ 1024"
    using assms by (intro pow2_less) simp
  then have "round_to_double (int (1 * 2 ^ n)) = Finite (int (1 * 2 ^ n))"
    by (intro round_to_double_finite) simp_all
  then show ?thesis
    by (simp add: Math_pow2_def)
qed

lemma Math_pow2_overflow:
  assumes "1024 \<le> n"
  shows "Math_pow2 n = Infinity"
proof -
  have "(2::nat) ^ 1024 \<le> 2 ^ n"
    using assms by (rule pow2_le)
  then have "round_to_double (int (1 * 2 ^ n)) = Infinity"
    by (intro round_to_double_infinite) simp_all
  then show ?thesis
    by (simp add: Math_pow2_def)
qed

lemma minus_one_small:
  assumes "n \<le> 53"
  shows "number_plus (Math_pow2 n) (- 1) = Finite (2 ^ n - 1)"
proof -
  have "(2::nat) ^ n \<le> 2 ^ 53"
    using assms by (rule pow2_le)
  then have "int (2 ^ n) \<le> int (2 ^ 53)"
    by (simp only: of_nat_le_iff)
  then have "(2::int) ^ n \<le> 2 ^ 53" by simp
  moreover have "(1::int) \<le> 2 ^ n" by simp
  ultimately have "\<bar>(2::int) ^ n - 1\<bar> \<le> 2 ^ 53" by linarith
  then have "round_to_double (2 ^ n - 1) = Finite (2 ^ n - 1)"
    by (rule round_to_double_exact)
  then show ?thesis
    using assms by (simp add: Math_pow2_exact)
qed

lemma minus_one_large:
  assumes "54 \<le> n" and "n \<le> 1023"
  shows "number_plus (Math_pow2 n) (- 1) = Finite (2 ^ n)"
proof -
  have lt: "(2::nat) ^ n < 2 ^ 1024"
    using assms(2) by (intro pow2_less) simp
  have "(2::int) ^ n - 1 = int (2 ^ n - 1)"
    by (simp add: of_nat_diff)
  then have "round_to_double (2 ^ n - 1) = round_to_double (int (2 ^ n - 1))"
    by (rule arg_cong)
  also have "\<dots> = Finite (int (2 ^ n))"
    unfolding round_to_double_of_nat round53_pow2_minus1 [OF assms(1)]
    using lt by simp
  finally have "round_to_double (2 ^ n - 1) = Finite (2 ^ n)"
    by simp
  then show ?thesis
    using assms by (simp add: Math_pow2_exact)
qed

lemma delay_exact:
  assumes "n \<le> 42"
  shows "calculateSendingDelay n = Finite ((2 ^ n - 1) * 60000)"
proof -
  let ?m = "(2 ^ n - 1) * 1875 :: nat"
  have "(2::nat) ^ n \<le> 2 ^ 42"
    using assms by (rule pow2_le)
  then have small: "?m < 2 ^ 53"
    by simp
  then have "?m * 2 ^ 5 < 2 ^ 53 * (2::nat) ^ 5"
    by simp
  also have "\<dots> < (2::nat) ^ 1024"
    by simp
  finally have fin: "?m * 2 ^ 5 < 2 ^ 1024" .
  have eq: "((2::int) ^ n - 1) * 60000 = int (?m * 2 ^ 5)"
    by (simp add: of_nat_diff)
  have "round_to_double (int (?m * 2 ^ 5)) = Finite (int (?m * 2 ^ 5))"
    using small fin by (rule round_to_double_finite)
  then have "round_to_double ((2 ^ n - 1) * 60000) = Finite ((2 ^ n - 1) * 60000)"
    by (simp only: eq)
  then show ?thesis
    using assms by (simp add: calculateSendingDelay_def minus_one_small)
qed

lemma delay_large:
  assumes "54 \<le> n" and "n \<le> 1008"
  shows "calculateSendingDelay n = Finite (2 ^ n * 60000)"
proof -
  have "(2::nat) ^ (n + 5) \<le> 2 ^ 1013"
    using assms(2) by (intro pow2_le) simp
  then have "1875 * (2::nat) ^ (n + 5) \<le> 1875 * 2 ^ 1013"
    by (rule mult_le_mono2)
  also have "\<dots> < 2 ^ 11 * (2::nat) ^ 1013"
    by simp
  also have "\<dots> = 2 ^ 1024"
    by (simp add: power_add [symmetric])
  finally have fin: "1875 * (2::nat) ^ (n + 5) < 2 ^ 1024" .
  have eq: "(2::int) ^ n * 60000 = int (1875 * 2 ^ (n + 5))"
    by (simp add: power_add)
  have "round_to_double (int (1875 * 2 ^ (n + 5))) = Finite (int (1875 * 2 ^ (n + 5)))"
    using _ fin by (rule round_to_double_finite) simp
  then have "round_to_double (2 ^ n * 60000) = Finite (2 ^ n * 60000)"
    by (simp only: eq)
  then show ?thesis
    using assms by (simp add: calculateSendingDelay_def minus_one_large)
qed

lemma delay_overflow:
  assumes "1009 \<le> n"
  shows "calculateSendingDelay n = Infinity"
proof (cases "n \<le> 1023")
  case True
  have "(2::nat) ^ 1014 \<le> 2 ^ (n + 5)"
    using assms by (intro pow2_le) simp
  then have "1024 * (2::nat) ^ 1014 \<le> 1875 * 2 ^ (n + 5)"
    using mult_le_mono [of 1024 1875 "2 ^ 1014" "2 ^ (n + 5)"] by simp
  moreover have "1024 * (2::nat) ^ 1014 = 2 ^ 10 * 2 ^ 1014"
    by simp
  moreover have "(2::nat) ^ 10 * 2 ^ 1014 = 2 ^ 1024"
    by (simp add: power_add [symmetric])
  ultimately have inf: "(2::nat) ^ 1024 \<le> 1875 * 2 ^ (n + 5)"
    by simp
  have eq: "(2::int) ^ n * 60000 = int (1875 * 2 ^ (n + 5))"
    by (simp add: power_add)
  have "round_to_double (int (1875 * 2 ^ (n + 5))) = Infinity"
    using _ inf by (rule round_to_double_infinite) simp
  then have "round_to_double (2 ^ n * 60000) = Infinity"
    by (simp only: eq)
  then show ?thesis
    using assms True by (simp add: calculateSendingDelay_def minus_one_large)
next
  case False
  then show ?thesis
    by (simp add: calculateSendingDelay_def Math_pow2_overflow)
qed

lemma round53_eval:
  assumes "2 ^ (52 + e) \<le> x" and "x < 2 ^ (53 + e)"
  shows "round53 x =
     (if 2 ^ e < 2 * (x mod 2 ^ e) \<or> (2 * (x mod 2 ^ e) = 2 ^ e \<and> odd (x div 2 ^ e))
      then (x div 2 ^ e + 1) * 2 ^ e else x div 2 ^ e * 2 ^ e)"
proof -
  have "bit_length x \<le> 53 + e"
    using assms(2) by (simp only: bit_length_le_iff)
  moreover have "\<not> x < 2 ^ (52 + e)" using assms(1) by simp
  then have "\<not> bit_length x \<le> 52 + e" unfolding bit_length_le_iff .
  ultimately have "bit_length x - 53 = e" by simp
  then show ?thesis by (simp add: round53_def Let_def)
qed

lemma round53_values:
  "round53 527765581332420000 = 527765581332419968"
  "round53 1055531162664900000 = 1055531162664899968"
  "round53 2111062325329860000 = 2111062325329860096"
  "round53 4222124650659780000 = 4222124650659780096"
  "round53 8444249301319620000 = 8444249301319619584"
  "round53 16888498602639300000 = 16888498602639300608"
  "round53 33776997205278660000 = 33776997205278658560"
  "round53 67553994410557380000 = 67553994410557382656"
  "round53 135107988821114820000 = 135107988821114814464"
  "round53 270215977642229700000 = 270215977642229694464"
  "round53 540431955284459460000 = 540431955284459454464"
proof -
  show "round53 527765581332420000 = 527765581332419968"
    by (subst round53_eval [where e = 6]) simp_all
  show "round53 1055531162664900000 = 1055531162664899968"
    by (subst round53_eval [where e = 7]) simp_all
  show "round53 2111062325329860000 = 2111062325329860096"
    by (subst round53_eval [where e = 8]) simp_all
  show "round53 4222124650659780000 = 4222124650659780096"
    by (subst round53_eval [where e = 9]) simp_all
  show "round53 8444249301319620000 = 8444249301319619584"
    by (subst round53_eval [where e = 10]) simp_all
  show "round53 16888498602639300000 = 16888498602639300608"
    by (subst round53_eval [where e = 11]) simp_all
  show "round53 33776997205278660000 = 33776997205278658560"
    by (subst round53_eval [where e = 12]) simp_all
  show "round53 67553994410557380000 = 67553994410557382656"
    by (subst round53_eval [where e = 13]) simp_all
  show "round53 135107988821114820000 = 135107988821114814464"
    by (subst round53_eval [where e = 14]) simp_all
  show "round53 270215977642229700000 = 270215977642229694464"
    by (subst round53_eval [where e = 15]) simp_all
  show "round53 540431955284459460000 = 540431955284459454464"
    by (subst round53_eval [where e = 16]) simp_all
qed

subsection \<open>The backoff\<close>

lemma delay_rounded:
  "calculateSendingDelay 43 = Finite 527765581332419968"
  "calculateSendingDelay 44 = Finite 1055531162664899968"
  "calculateSendingDelay 45 = Finite 2111062325329860096"
  "calculateSendingDelay 46 = Finite 4222124650659780096"
  "calculateSendingDelay 47 = Finite 8444249301319619584"
  "calculateSendingDelay 48 = Finite 16888498602639300608"
  "calculateSendingDelay 49 = Finite 33776997205278658560"
  "calculateSendingDelay 50 = Finite 67553994410557382656"
  "calculateSendingDelay 51 = Finite 135107988821114814464"
  "calculateSendingDelay 52 = Finite 270215977642229694464"
  "calculateSendingDelay 53 = Finite 540431955284459454464"
  by (simp_all add: calculateSendingDelay_def minus_one_small round_to_double_def round53_values)

lemma delay_step:
  assumes "n < 1009"
  shows "calculateSendingDelay n < calculateSendingDelay (Suc n)"
proof -
  consider "Suc n \<le> 42" | "42 \<le> n" "n \<le> 53" | "54 \<le> n" "Suc n \<le> 1008" | "n = 1008"
    using assms by linarith
  then show ?thesis
  proof cases
    case 1
    have "(2::int) ^ n < 2 ^ Suc n" by simp
    then have "((2::int) ^ n - 1) * 60000 < (2 ^ Suc n - 1) * 60000" by simp
    with 1 show ?thesis by (simp add: delay_exact del: power_Suc)
  next
    case 2
    then have "n = 42 \<or> n = 43 \<or> n = 44 \<or> n = 45 \<or> n = 46 \<or> n = 47 \<or> n = 48 \<or> n = 49 \<or>
      n = 50 \<or> n = 51 \<or> n = 52 \<or> n = 53"
      by presburger
    moreover have "calculateSendingDelay 42 = Finite 263882790666180000"
      using delay_exact [of 42] by simp
    moreover have "calculateSendingDelay 54 = Finite 1080863910568919040000"
      using delay_large [of 54] by simp
    ultimately show ?thesis
      by (elim disjE) (simp_all add: delay_rounded)
  next
    case 3
    have "(2::int) ^ n * 60000 < 2 ^ Suc n * 60000" by simp
    with 3 show ?thesis by (simp add: delay_large del: power_Suc)
  next
    case 4
    then show ?thesis by (simp add: delay_large delay_overflow)
  qed
qed

lemma delay_strict_mono:
  assumes "m < n" and "n \<le> 1009"
  shows "calculateSendingDelay m < calculateSendingDelay n"
  using assms
proof (induction n)
  case 0
  then show ?case by simp
next
  case (Suc n)
  have step: "calculateSendingDelay n < calculateSendingDelay (Suc n)"
    using Suc.prems by (intro delay_step) simp
  show ?case
  proof (cases "m = n")
    case True
    with step show ?thesis by simp
  next
    case False
    with Suc.prems have "m < n" "n \<le> 1009" by simp_all
    then have "calculateSendingDelay m < calculateSendingDelay n" by (rule Suc.IH)
    from this step show ?thesis by (rule less_trans)
  qed
qed

lemma delay_at_least_one_minute: "Finite 60000 \<le> calculateSendingDelay (Suc n)"
proof (cases "Suc n \<le> 1009")
  case True
  have one: "calculateSendingDelay (Suc 0) = Finite 60000"
    using delay_exact [of "Suc 0"] by simp
  show ?thesis
  proof (cases "n = 0")
    case True
    with one show ?thesis by simp
  next
    case False
    then have "Suc 0 < Suc n" by simp
    then have "calculateSendingDelay (Suc 0) < calculateSendingDelay (Suc n)"
      using \<open>Suc n \<le> 1009\<close> by (rule delay_strict_mono)
    with one show ?thesis by simp
  qed
next
  case False
  then have "calculateSendingDelay (Suc n) = Infinity"
    by (intro delay_overflow) simp
  then show ?thesis by simp
qed

lemma number_plus_later:
  assumes "time_value t" and "Finite 60000 \<le> d"
  shows "Finite t < number_plus d t"
proof (cases d)
  case NegInfinity
  with assms(2) show ?thesis by simp
next
  case Infinity
  then show ?thesis by simp
next
  case (Finite v)
  with assms(2) have v: "60000 \<le> v" by simp
  from assms(1) have t: "- 8640000000000000 \<le> t" "t \<le> 8640000000000000"
    by (simp_all add: time_value_def abs_le_iff)
  show ?thesis
  proof (cases "v + t \<le> 2 ^ 53")
    case True
    with v t have "\<bar>v + t\<bar> \<le> 2 ^ 53" by simp
    then have "round_to_double (v + t) = Finite (v + t)"
      by (rule round_to_double_exact)
    with v Finite show ?thesis by simp
  next
    case False
    then have big: "2 ^ 53 \<le> nat \<bar>v + t\<bar>" and pos: "\<not> v + t < 0"
      by simp_all
    from big have "2 ^ 53 \<le> round53 (nat \<bar>v + t\<bar>)"
      by (rule round53_large)
    then have "t < int (round53 (nat \<bar>v + t\<bar>))"
      using t(2) by simp
    then show ?thesis
      using pos by (simp add: Finite round_to_double_def Let_def)
  qed
qed

text \<open>
  Claim C2, as far as the code goes. For every number of tries up to 42 the sending
  delay is \<open>(2^tries - 1) * 60000\<close> milliseconds; it is 0 for no tries and 900000 for
  four tries. The delay is strictly increasing in the number of tries up to 1009, and
  from 1009 tries on it is infinite.
\<close>

theorem calculateSendingDelay_backoff:
  "(n \<le> 42 \<longrightarrow> calculateSendingDelay n = Finite ((2 ^ n - 1) * 60000)) \<and>
   calculateSendingDelay 0 = Finite 0 \<and>
   calculateSendingDelay 4 = Finite 900000 \<and>
   (m < n \<and> n \<le> 1009 \<longrightarrow> calculateSendingDelay m < calculateSendingDelay n) \<and>
   (1009 \<le> n \<longrightarrow> calculateSendingDelay n = Infinity)"
proof -
  have "calculateSendingDelay 0 = Finite 0"
    using delay_exact [of 0] by simp
  moreover have "calculateSendingDelay 4 = Finite 900000"
    using delay_exact [of 4] by simp
  ultimately show ?thesis
    by (simp add: delay_exact delay_strict_mono delay_overflow)
qed

theorem calculateSendingDelay_backoff_witness:
  "(3::nat) \<le> 42 \<and> calculateSendingDelay 3 = Finite 420000 \<and>
   (3::nat) < 1009 \<and> calculateSendingDelay 3 < calculateSendingDelay 1009 \<and>
   calculateSendingDelay 1009 = Infinity"
  using calculateSendingDelay_backoff [of 3 0] calculateSendingDelay_backoff [of 1009 3]
  by simp

text \<open>
  The claim as the specification states it, for every number of tries, fails where the
  doubles round and where they overflow: for 43 tries the delay is not
  \<open>(2^43 - 1) * 60000 = 527765581332420000\<close>, and for 1009 and 1010 tries it is the
  same.
\<close>

theorem calculateSendingDelay_backoff_counterexample:
  "calculateSendingDelay 43 = Finite 527765581332419968 \<and>
   calculateSendingDelay 43 \<noteq> Finite ((2 ^ 43 - 1) * 60000) \<and>
   calculateSendingDelay 1009 = Infinity \<and>
   calculateSendingDelay 1010 = Infinity \<and>
   \<not> calculateSendingDelay 1009 < calculateSendingDelay 1010"
  by (simp add: delay_rounded delay_overflow)

subsection \<open>Records in key order\<close>

lemma map_of_store_record: "map_of (store_record k v es) = (map_of es)(k \<mapsto> v)"
  by (induction es) (auto simp: fun_eq_iff)

lemma set_store_record_keys:
  "set (map fst (store_record k v es)) = insert k (set (map fst es))"
proof (induction es)
  case Nil
  then show ?case by simp
next
  case (Cons e es)
  obtain k' v' where e: "e = (k', v')" by (cases e)
  consider "k < k'" | "k = k'" | "k' < k" by (rule linorder_cases)
  then show ?case
  proof cases
    case 1
    then show ?thesis by (simp add: e)
  next
    case 2
    then show ?thesis by (simp add: e)
  next
    case 3
    then have "store_record k v (e # es) = e # store_record k v es"
      by (simp add: e)
    then have "set (map fst (store_record k v (e # es))) = insert k' (insert k (set (map fst es)))"
      using Cons.IH by (simp add: e)
    then show ?thesis by (simp add: e insert_commute)
  qed
qed

lemma store_record_append:
  "list_all (\<lambda>k'. k' < k) (map fst es) \<Longrightarrow> store_record k v es = es @ [(k, v)]"
  by (induction es) auto

lemma keys_store_record_present:
  "sorted_wrt (<) (map fst es) \<Longrightarrow> k \<in> set (map fst es) \<Longrightarrow>
   map fst (store_record k v es) = map fst es"
proof (induction es)
  case Nil
  then show ?case by simp
next
  case (Cons e es)
  obtain k' v' where e: "e = (k', v')" by (cases e)
  show ?case
  proof (cases "k = k'")
    case True
    then show ?thesis by (simp add: e)
  next
    case False
    with Cons.prems e have mem: "k \<in> set (map fst es)" by auto
    with Cons.prems e have "k' < k" by auto
    with Cons mem e show ?thesis by simp
  qed
qed

subsection \<open>The invariant of the store\<close>

lemma store_inv_setup: "store_inv setupPendingResponsesDatabase"
  by (simp add: store_inv_def setupPendingResponsesDatabase_def)

lemma store_inv_example: "store_inv example_store"
  by (simp add: store_inv_def example_store_def)

lemma store_inv_fresh: "store_inv st \<Longrightarrow> keyGenerator st \<notin> set (map fst (objects st))"
  by (auto simp: store_inv_def list_all_iff)

lemma idb_add_fresh:
  assumes "store_inv st"
  shows "idb_add v st =
           Some (keyGenerator st,
                 \<lparr>keyGenerator = Suc (keyGenerator st), objects = objects st @ [(keyGenerator st, v)]\<rparr>)"
proof -
  have "list_all (\<lambda>k'. k' < keyGenerator st) (map fst (objects st))"
    using assms by (simp add: store_inv_def)
  then have "store_record (keyGenerator st) v (objects st) = objects st @ [(keyGenerator st, v)]"
    by (rule store_record_append)
  moreover have "keyGenerator st \<notin> fst ` set (objects st)"
    using store_inv_fresh [OF assms] by simp
  ultimately show ?thesis
    by (simp add: idb_add_def Let_def)
qed

lemma idb_get_idb_put: "idb_get k' (idb_put k v st) = (if k' = k then Some v else idb_get k' st)"
  by (simp add: idb_get_def idb_put_def map_of_store_record)

lemma idb_get_keys: "idb_get k st = Some p \<Longrightarrow> k \<in> set (map fst (objects st))"
  unfolding idb_get_def by (drule map_of_SomeD) force

lemma idb_get_example:
  "idb_get 1 example_store = Some \<lparr>surveyRecord = example_survey, timeToSend = Finite 1000, tries = 0\<rparr>"
  "idb_get 2 example_store = Some \<lparr>surveyRecord = example_survey, timeToSend = Finite 2000, tries = 0\<rparr>"
  "idb_get 7 example_store = None"
  by (simp_all add: idb_get_def example_store_def)

lemma updateTimeToSend_store_cases:
  "snd (updateTimeToSend env k st) = st \<or>
   (\<exists>p. idb_get k st = Some p \<and>
        snd (updateTimeToSend env k st) =
          idb_put k (p\<lparr>tries := round53 (tries p + 1),
                      timeToSend :=
                        number_plus (calculateSendingDelay (round53 (tries p + 1))) (now env)\<rparr>) st)"
  by (cases "idb_get k st") (simp_all add: updateTimeToSend_def withObjectStore_def Let_def)

lemma store_inv_saveSurveyRecord:
  assumes "store_inv st"
  shows "store_inv (snd (saveSurveyRecord env r tries_arg st))"
proof -
  have "store_inv \<lparr>keyGenerator = Suc (keyGenerator st), objects = objects st @ [(keyGenerator st, v)]\<rparr>" for v
    using assms
    by (auto simp: store_inv_def sorted_wrt_append list_all_iff less_Suc_eq)
  then show ?thesis
    using assms
    by (simp add: saveSurveyRecord_def withObjectStore_def idb_add_fresh Let_def)
qed

lemma store_inv_updateTimeToSend:
  assumes "store_inv st"
  shows "store_inv (snd (updateTimeToSend env k st))"
proof -
  have "store_inv (idb_put k v st)" if "idb_get k st = Some p" for p v
  proof -
    have mem: "k \<in> set (map fst (objects st))"
      using that by (rule idb_get_keys)
    then have "k < keyGenerator st"
      using assms by (auto simp: store_inv_def list_all_iff)
    moreover have "map fst (store_record k v (objects st)) = map fst (objects st)"
      using assms mem by (intro keys_store_record_present) (simp add: store_inv_def)
    ultimately have "max (keyGenerator st) (Suc k) = keyGenerator st"
      and "map fst (objects (idb_put k v st)) = map fst (objects st)"
      by (simp_all add: idb_put_def)
    moreover have "keyGenerator (idb_put k v st) = max (keyGenerator st) (Suc k)"
      by (simp add: idb_put_def)
    ultimately show ?thesis
      using assms by (simp add: store_inv_def)
  qed
  with updateTimeToSend_store_cases [of env k st] assms show ?thesis
    by auto
qed

lemma store_inv_deleteSurveyRecord:
  assumes "store_inv st"
  shows "store_inv (snd (deleteSurveyRecord env k st))"
proof -
  have "sorted_wrt (<) (map fst (filter (\<lambda>e. fst e \<noteq> k) (objects st)))"
    using assms by (simp add: store_inv_def sorted_wrt_map sorted_wrt_filter)
  then have "store_inv (idb_delete k st)"
    using assms by (auto simp: store_inv_def idb_delete_def list_all_iff)
  with assms show ?thesis
    by (simp add: deleteSurveyRecord_def withObjectStore_def)
qed

subsection \<open>Saving a survey\<close>

lemma saveSurveyRecord_Some:
  assumes "store_inv st" "opens env" "succeeds env RequestAdd"
  shows "saveSurveyRecord env r (Some n) st =
           (Resolved,
            \<lparr>keyGenerator = Suc (keyGenerator st),
             objects = objects st @
               [(keyGenerator st,
                 \<lparr>surveyRecord = r,
                  timeToSend = number_plus (calculateSendingDelay n) (now env), tries = n\<rparr>)]\<rparr>)"
  using assms by (simp add: saveSurveyRecord_def withObjectStore_def idb_add_fresh)

lemma saveSurveyRecord_None: "saveSurveyRecord env r None st = saveSurveyRecord env r (Some 0) st"
  by (simp add: saveSurveyRecord_def)

lemma time_value_exact: "time_value t \<Longrightarrow> round_to_double t = Finite t"
  by (rule round_to_double_exact) (simp add: time_value_def)

lemma number_plus_exact:
  assumes "time_value t" and "n \<le> 42" and "t + (2 ^ n - 1) * 60000 \<le> 2 ^ 53"
  shows "number_plus (calculateSendingDelay n) t = Finite (t + (2 ^ n - 1) * 60000)"
proof -
  define d :: int where "d = (2 ^ n - 1) * 60000"
  have "(1::int) \<le> 2 ^ n" by simp
  then have "0 \<le> d" by (simp add: d_def)
  moreover have "- (2 ^ 53) \<le> t"
    using assms(1) by (simp add: time_value_def abs_le_iff)
  moreover have "t + d \<le> 2 ^ 53"
    using assms(3) by (simp only: d_def)
  ultimately have "\<bar>d + t\<bar> \<le> 2 ^ 53"
    by linarith
  then have "\<bar>(2 ^ n - 1) * 60000 + t\<bar> \<le> 2 ^ 53"
    by (simp only: d_def)
  then have "round_to_double ((2 ^ n - 1) * 60000 + t) = Finite ((2 ^ n - 1) * 60000 + t)"
    by (rule round_to_double_exact)
  then show ?thesis
    using assms(2) by (simp add: delay_exact add.commute)
qed

text \<open>
  Claim C3. When the database opens and the write succeeds, \<^verbatim>\<open>saveSurveyRecord\<close> adds
  exactly one object to the store: the survey with the given number of tries and
  \<open>timeToSend\<close> the double sum of \<^verbatim>\<open>Date.now()\<close> and the sending delay, under the key of
  the key generator, which no stored object has. That sum is
  \<open>now + (2^tries - 1) * 60000\<close> while \<open>tries \<le> 42\<close> and the sum does not exceed \<open>2^53\<close>.
  With \<^verbatim>\<open>tries\<close> omitted the object has \<open>tries = 0\<close> and \<open>timeToSend = now\<close>.
\<close>

theorem saveSurveyRecord_persists:
  assumes "store_inv st" and "opens env" and "succeeds env RequestAdd"
    and "time_value (now env)"
  shows "saveSurveyRecord env r (Some n) st =
           (Resolved,
            \<lparr>keyGenerator = Suc (keyGenerator st),
             objects = objects st @
               [(keyGenerator st,
                 \<lparr>surveyRecord = r,
                  timeToSend = number_plus (calculateSendingDelay n) (now env), tries = n\<rparr>)]\<rparr>) \<and>
         (n \<le> 42 \<and> now env + (2 ^ n - 1) * 60000 \<le> 2 ^ 53 \<longrightarrow>
            number_plus (calculateSendingDelay n) (now env) =
              Finite (now env + (2 ^ n - 1) * 60000)) \<and>
         saveSurveyRecord env r None st =
           (Resolved,
            \<lparr>keyGenerator = Suc (keyGenerator st),
             objects = objects st @
               [(keyGenerator st, \<lparr>surveyRecord = r, timeToSend = Finite (now env), tries = 0\<rparr>)]\<rparr>) \<and>
         keyGenerator st \<notin> set (map fst (objects st))"
proof -
  have "calculateSendingDelay 0 = Finite 0"
    using delay_exact [of 0] by simp
  then have "number_plus (calculateSendingDelay 0) (now env) = Finite (now env)"
    using time_value_exact [OF assms(4)] by simp
  then have "saveSurveyRecord env r None st =
           (Resolved,
            \<lparr>keyGenerator = Suc (keyGenerator st),
             objects = objects st @
               [(keyGenerator st, \<lparr>surveyRecord = r, timeToSend = Finite (now env), tries = 0\<rparr>)]\<rparr>)"
    using saveSurveyRecord_Some [OF assms(1-3), of r 0] by (simp add: saveSurveyRecord_None)
  with saveSurveyRecord_Some [OF assms(1-3), of r n] store_inv_fresh [OF assms(1)]
    number_plus_exact [OF assms(4), of n]
  show ?thesis by blast
qed

theorem saveSurveyRecord_persists_witness:
  "store_inv setupPendingResponsesDatabase \<and>
   opens (working 1000) \<and> succeeds (working 1000) RequestAdd \<and> time_value (now (working 1000)) \<and>
   (2::nat) \<le> 42 \<and> now (working 1000) + (2 ^ 2 - 1) * 60000 \<le> 2 ^ 53 \<and>
   saveSurveyRecord (working 1000) example_survey None setupPendingResponsesDatabase =
     (Resolved,
      \<lparr>keyGenerator = 2,
       objects = [(1, \<lparr>surveyRecord = example_survey, timeToSend = Finite 1000, tries = 0\<rparr>)]\<rparr>) \<and>
   saveSurveyRecord (working 1000) example_survey (Some 2) setupPendingResponsesDatabase =
     (Resolved,
      \<lparr>keyGenerator = 2,
       objects = [(1, \<lparr>surveyRecord = example_survey, timeToSend = Finite 181000, tries = 2\<rparr>)]\<rparr>)"
proof -
  have env: "opens (working 1000)" "succeeds (working 1000) RequestAdd" "now (working 1000) = 1000"
    by (simp_all add: working_def)
  have tv: "time_value (now (working 1000))"
    by (simp add: env time_value_def)
  have store: "keyGenerator setupPendingResponsesDatabase = 1" "objects setupPendingResponsesDatabase = []"
    by (simp_all add: setupPendingResponsesDatabase_def)
  from saveSurveyRecord_persists [OF store_inv_setup env(1,2) tv, of example_survey 2]
  show ?thesis
    by (simp add: store_inv_setup env store time_value_def)
qed

subsection \<open>Rescheduling a survey\<close>

lemma round53_succ:
  assumes "t < 2 ^ 53"
  shows "round53 (t + 1) = t + 1"
proof (cases "t + 1 < 2 ^ 53")
  case True
  then show ?thesis by (rule round53_small)
next
  case False
  with assms have "t + 1 = 1 * 2 ^ 53" by simp
  then show ?thesis
    using round53_representable [of 1 53] by simp
qed

lemma round53_pos:
  assumes "0 < x"
  shows "0 < round53 x"
proof (cases "x < 2 ^ 53")
  case True
  with assms show ?thesis by (simp add: round53_small)
next
  case False
  then have "2 ^ 53 \<le> round53 x"
    by (intro round53_large) simp
  then show ?thesis by simp
qed

lemma updateTimeToSend_present:
  assumes "idb_get k st = Some p" and "opens env" and "succeeds env RequestGet"
    and "succeeds env RequestPut"
  shows "updateTimeToSend env k st =
           (Resolved,
            idb_put k (p\<lparr>tries := round53 (tries p + 1),
                        timeToSend :=
                          number_plus (calculateSendingDelay (round53 (tries p + 1))) (now env)\<rparr>) st)"
  using assms by (simp add: updateTimeToSend_def withObjectStore_def)

lemma rescheduled_later:
  assumes "time_value t"
  shows "Finite t < number_plus (calculateSendingDelay (round53 (n + 1))) t"
proof -
  have "0 < round53 (n + 1)"
    by (rule round53_pos) simp
  then obtain j where "round53 (n + 1) = Suc j"
    by (cases "round53 (n + 1)") auto
  then have "Finite 60000 \<le> calculateSendingDelay (round53 (n + 1))"
    by (simp add: delay_at_least_one_minute)
  with assms show ?thesis
    by (rule number_plus_later)
qed

text \<open>
  Claim C5, as far as the code goes. For a stored record with \<open>tries = t\<close> and
  \<open>timeToSend = s\<close>, \<^verbatim>\<open>updateTimeToSend\<close> on a working database sets \<open>tries\<close> to the double
  sum \<open>t + 1\<close>, which is \<open>t + 1\<close> for \<open>t < 2^53\<close>, and \<open>timeToSend\<close> to the double sum of
  \<^verbatim>\<open>Date.now()\<close> and the sending delay for the new tries, which is
  \<open>now + (2^(t + 1) - 1) * 60000\<close> while \<open>t + 1 \<le> 42\<close> and the sum does not exceed \<open>2^53\<close>.
  The new \<open>timeToSend\<close> is strictly greater than \<open>now\<close>, so strictly greater than the time
  of any attempt made up to \<open>now\<close>, and strictly greater than \<open>s\<close> when the record was
  due (\<open>s \<le> now\<close>).
\<close>

theorem updateTimeToSend_reschedules:
  assumes "idb_get k st = Some p" and "opens env" and "succeeds env RequestGet"
    and "succeeds env RequestPut" and "time_value (now env)"
  shows "fst (updateTimeToSend env k st) = Resolved \<and>
         (\<exists>p'. idb_get k (snd (updateTimeToSend env k st)) = Some p' \<and>
            surveyRecord p' = surveyRecord p \<and>
            tries p' = round53 (tries p + 1) \<and>
            timeToSend p' = number_plus (calculateSendingDelay (tries p')) (now env) \<and>
            (tries p < 2 ^ 53 \<longrightarrow> tries p' = tries p + 1) \<and>
            (tries p < 42 \<and> now env + (2 ^ (tries p + 1) - 1) * 60000 \<le> 2 ^ 53 \<longrightarrow>
               timeToSend p' = Finite (now env + (2 ^ (tries p + 1) - 1) * 60000)) \<and>
            Finite (now env) < timeToSend p' \<and>
            (attempt \<le> now env \<longrightarrow> Finite attempt < timeToSend p') \<and>
            (timeToSend p \<le> Finite (now env) \<longrightarrow> timeToSend p < timeToSend p'))"
proof -
  let ?n = "round53 (tries p + 1)"
  let ?s = "number_plus (calculateSendingDelay ?n) (now env)"
  let ?p' = "p\<lparr>tries := ?n, timeToSend := ?s\<rparr>"
  have res: "updateTimeToSend env k st = (Resolved, idb_put k ?p' st)"
    using assms(1-4) by (rule updateTimeToSend_present)
  have later: "Finite (now env) < ?s"
    using assms(5) by (rule rescheduled_later)
  have att: "Finite attempt < ?s" if "attempt \<le> now env"
  proof -
    from that have "Finite attempt \<le> Finite (now env)" by simp
    then show ?thesis using later by (rule le_less_trans)
  qed
  have due: "timeToSend p < ?s" if "timeToSend p \<le> Finite (now env)"
    using that later by (rule le_less_trans)
  have succ: "?n = tries p + 1" if "tries p < 2 ^ 53"
    using that by (rule round53_succ)
  have exact: "?s = Finite (now env + (2 ^ (tries p + 1) - 1) * 60000)"
    if "tries p < 42" and "now env + (2 ^ (tries p + 1) - 1) * 60000 \<le> 2 ^ 53"
  proof -
    from that(1) have "tries p < 2 ^ 53" by simp
    then have n: "?n = tries p + 1" by (rule round53_succ)
    have "number_plus (calculateSendingDelay (tries p + 1)) (now env) =
        Finite (now env + (2 ^ (tries p + 1) - 1) * 60000)"
      using assms(5) _ that(2) by (rule number_plus_exact) (use that(1) in simp)
    then show ?thesis by (simp only: n)
  qed
  have "idb_get k (snd (updateTimeToSend env k st)) = Some ?p'"
    by (simp add: res idb_get_idb_put)
  moreover have "surveyRecord ?p' = surveyRecord p" "tries ?p' = ?n" "timeToSend ?p' = ?s"
    by simp_all
  ultimately show ?thesis
    using res later att due succ exact by auto
qed

theorem updateTimeToSend_reschedules_witness:
  "idb_get 1 example_store =
     Some \<lparr>surveyRecord = example_survey, timeToSend = Finite 1000, tries = 0\<rparr> \<and>
   opens (working 5000) \<and> succeeds (working 5000) RequestGet \<and>
   succeeds (working 5000) RequestPut \<and> time_value (now (working 5000)) \<and>
   (0::nat) < 42 \<and> now (working 5000) + (2 ^ (0 + 1) - 1) * 60000 \<le> 2 ^ 53 \<and>
   (4000::int) \<le> now (working 5000) \<and> Finite 1000 \<le> Finite (now (working 5000)) \<and>
   fst (updateTimeToSend (working 5000) 1 example_store) = Resolved \<and>
   idb_get 1 (snd (updateTimeToSend (working 5000) 1 example_store)) =
     Some \<lparr>surveyRecord = example_survey, timeToSend = Finite 65000, tries = 1\<rparr> \<and>
   Finite 4000 < Finite 65000 \<and> Finite 1000 < Finite 65000"
proof -
  have env: "opens (working 5000)" "succeeds (working 5000) RequestGet"
    "succeeds (working 5000) RequestPut" "now (working 5000) = 5000"
    by (simp_all add: working_def)
  have tv: "time_value (now (working 5000))"
    by (simp add: env time_value_def)
  from updateTimeToSend_reschedules [OF idb_get_example(1) env(1-3) tv, of 4000]
  obtain p' where p': "idb_get 1 (snd (updateTimeToSend (working 5000) 1 example_store)) = Some p'"
    "surveyRecord p' = example_survey" "tries p' = 1" "timeToSend p' = Finite 65000"
    and res: "fst (updateTimeToSend (working 5000) 1 example_store) = Resolved"
    by (auto simp: env round53_small)
  have "p' = \<lparr>surveyRecord = example_survey, timeToSend = Finite 65000, tries = 1\<rparr>"
    using p'(2-4) by (cases p') simp
  with p'(1) res show ?thesis
    by (simp add: env idb_get_def example_store_def time_value_def)
qed

lemma delay_43_at_0: "number_plus (calculateSendingDelay 43) 0 = Finite 527765581332419968"
proof -
  have "round_to_double (int (8246337208319062 * 2 ^ 6)) = Finite (int (8246337208319062 * 2 ^ 6))"
    by (rule round_to_double_finite) simp_all
  then show ?thesis
    by (simp add: delay_rounded)
qed

lemma round53_tie: "round53 9007199254740993 = 9007199254740992"
  by (subst round53_eval [where e = 1]) simp_all

text \<open>
  The claim as the specification states it fails for a record that is not due when the
  clock has gone back: a survey to be sent at 1000000 that is rescheduled when the clock
  shows 5000 gets \<open>timeToSend = 65000\<close>, less than before. And the sums are rounded: a
  survey tried 42 times that is rescheduled at time 0 gets 527765581332419968, not
  \<open>(2^43 - 1) * 60000 = 527765581332420000\<close>, and a survey saved with \<open>tries = 2^53\<close>
  keeps that number of tries.
\<close>

theorem updateTimeToSend_reschedules_counterexample:
  "idb_get 1 later_store =
     Some \<lparr>surveyRecord = example_survey, timeToSend = Finite 1000000, tries = 0\<rparr> \<and>
   idb_get 1 (snd (updateTimeToSend (working 5000) 1 later_store)) =
     Some \<lparr>surveyRecord = example_survey, timeToSend = Finite 65000, tries = 1\<rparr> \<and>
   Finite 65000 < Finite 1000000 \<and>
   idb_get 1 tried_store =
     Some \<lparr>surveyRecord = example_survey, timeToSend = Finite 0, tries = 42\<rparr> \<and>
   idb_get 1 (snd (updateTimeToSend (working 0) 1 tried_store)) =
     Some \<lparr>surveyRecord = example_survey, timeToSend = Finite 527765581332419968, tries = 43\<rparr> \<and>
   0 + (2 ^ 43 - 1) * 60000 = (527765581332420000::int) \<and>
   idb_get 1 counted_store =
     Some \<lparr>surveyRecord = example_survey, timeToSend = Infinity, tries = 9007199254740992\<rparr> \<and>
   idb_get 1 (snd (updateTimeToSend (working 0) 1 counted_store)) =
     Some \<lparr>surveyRecord = example_survey, timeToSend = Infinity, tries = 9007199254740992\<rparr>"
proof -
  have one: "calculateSendingDelay (Suc 0) = Finite 60000"
    using delay_exact [of "Suc 0"] by simp
  have "round_to_double 65000 = Finite 65000"
    by (rule round_to_double_exact) simp
  with one have later: "idb_get 1 (snd (updateTimeToSend (working 5000) 1 later_store)) =
     Some \<lparr>surveyRecord = example_survey, timeToSend = Finite 65000, tries = 1\<rparr>"
    by (simp add: updateTimeToSend_def withObjectStore_def working_def idb_get_def idb_put_def
        later_store_def round53_small)
  have tried: "idb_get 1 (snd (updateTimeToSend (working 0) 1 tried_store)) =
     Some \<lparr>surveyRecord = example_survey, timeToSend = Finite 527765581332419968, tries = 43\<rparr>"
    using delay_43_at_0
    by (simp add: updateTimeToSend_def withObjectStore_def working_def idb_get_def idb_put_def
        tried_store_def round53_small)
  have "calculateSendingDelay 9007199254740992 = Infinity"
    by (rule delay_overflow) simp
  then have counted: "idb_get 1 (snd (updateTimeToSend (working 0) 1 counted_store)) =
     Some \<lparr>surveyRecord = example_survey, timeToSend = Infinity, tries = 9007199254740992\<rparr>"
    using round53_tie
    by (simp add: updateTimeToSend_def withObjectStore_def working_def idb_get_def idb_put_def
        counted_store_def)
  from later tried counted show ?thesis
    by (simp add: idb_get_def later_store_def tried_store_def counted_store_def)
qed

text \<open>
  Claim C10. For a record present in the store, \<^verbatim>\<open>updateTimeToSend\<close> leaves the keys of
  the store and every other record as they were, and the record itself keeps its key and
  its \<open>surveyRecord\<close>: only \<open>tries\<close> and \<open>timeToSend\<close> may differ. This holds whether or
  not the database operations succeed.
\<close>

theorem updateTimeToSend_frame:
  assumes "store_inv st" and "idb_get k st = Some p"
  shows "map fst (objects (snd (updateTimeToSend env k st))) = map fst (objects st) \<and>
         (\<forall>k'. k' \<noteq> k \<longrightarrow> idb_get k' (snd (updateTimeToSend env k st)) = idb_get k' st) \<and>
         (\<exists>p'. idb_get k (snd (updateTimeToSend env k st)) = Some p' \<and>
               surveyRecord p' = surveyRecord p)"
proof -
  let ?p' = "p\<lparr>tries := round53 (tries p + 1),
               timeToSend := number_plus (calculateSendingDelay (round53 (tries p + 1))) (now env)\<rparr>"
  from updateTimeToSend_store_cases [of env k st] assms(2)
  consider "snd (updateTimeToSend env k st) = st"
    | "snd (updateTimeToSend env k st) = idb_put k ?p' st"
    by auto
  then show ?thesis
  proof cases
    case 1
    with assms(2) show ?thesis by simp
  next
    case 2
    have "sorted_wrt (<) (map fst (objects st))"
      using assms(1) by (simp add: store_inv_def)
    then have "map fst (store_record k ?p' (objects st)) = map fst (objects st)"
      using idb_get_keys [OF assms(2)] by (rule keys_store_record_present)
    then have "map fst (objects (idb_put k ?p' st)) = map fst (objects st)"
      by (simp add: idb_put_def)
    with 2 show ?thesis
      by (simp add: idb_get_idb_put)
  qed
qed

theorem updateTimeToSend_frame_witness:
  "store_inv example_store \<and>
   idb_get 1 example_store =
     Some \<lparr>surveyRecord = example_survey, timeToSend = Finite 1000, tries = 0\<rparr> \<and>
   map fst (objects (snd (updateTimeToSend (working 5000) 1 example_store))) = [1, 2] \<and>
   idb_get 2 (snd (updateTimeToSend (working 5000) 1 example_store)) =
     Some \<lparr>surveyRecord = example_survey, timeToSend = Finite 2000, tries = 0\<rparr>"
proof -
  have keys: "map fst (objects example_store) = [1, 2]"
    by (simp add: example_store_def)
  from updateTimeToSend_frame [OF store_inv_example idb_get_example(1), of "working 5000"]
  have "map fst (objects (snd (updateTimeToSend (working 5000) 1 example_store))) = map fst (objects example_store)"
    and "idb_get 2 (snd (updateTimeToSend (working 5000) 1 example_store)) = idb_get 2 example_store"
    by simp_all
  with store_inv_example idb_get_example keys show ?thesis by simp
qed

text \<open>
  Claim C8, as far as the code goes. For a key that is not in the store,
  \<^verbatim>\<open>updateTimeToSend\<close> leaves the store unchanged and never reports success, whatever
  the database does.
\<close>

theorem updateTimeToSend_missing:
  assumes "idb_get k st = None"
  shows "snd (updateTimeToSend env k st) = st \<and> fst (updateTimeToSend env k st) \<noteq> Resolved"
  using assms by (simp add: updateTimeToSend_def withObjectStore_def)

theorem updateTimeToSend_missing_witness:
  "idb_get 7 example_store = None \<and>
   snd (updateTimeToSend (working 5000) 7 example_store) = example_store \<and>
   fst (updateTimeToSend (working 5000) 7 example_store) \<noteq> Resolved"
  using updateTimeToSend_missing [OF idb_get_example(3), of "working 5000"] idb_get_example(3)
  by simp

text \<open>
  The code has no failure that names a missing record, and the operation does not end
  quietly: on the empty store, with a working database, the success handler of
  \<^verbatim>\<open>store.get\<close> throws a \<^verbatim>\<open>TypeError\<close> on \<^verbatim>\<open>record.tries\<close>, which nothing catches,
  and the promise is neither fulfilled nor rejected.
\<close>

theorem updateTimeToSend_missing_counterexample:
  "fst (updateTimeToSend (working 0) 1 setupPendingResponsesDatabase) = Unsettled (Some TypeError)"
  by (simp add: updateTimeToSend_def withObjectStore_def working_def idb_get_def
      setupPendingResponsesDatabase_def)

subsection \<open>The submission client\<close>

lemma push_responses_drop: "push_responses rs i acc = acc @ drop i rs"
proof (induction rs i acc rule: push_responses.induct)
  case (1 rs i acc)
  show ?case
  proof (cases "i < length rs")
    case True
    then show ?thesis
      using 1 by (subst push_responses.simps) (simp add: Cons_nth_drop_Suc)
  next
    case False
    then show ?thesis by (subst push_responses.simps) simp
  qed
qed

lemma survey_request_body:
  "body (survey_request toISO r) =
     \<lparr>date_taken = (if toISO (dateTaken r) \<noteq> [] \<and> last (toISO (dateTaken r)) = CHR ''Z''
                     then butlast (toISO (dateTaken r)) else toISO (dateTaken r)),
      participant_id = participantId r,
      responses = SurveyRecord.responses r,
      survey_type = type r\<rparr>"
  by (simp add: survey_request_def slice_last_def slice_but_last_def push_responses_drop Let_def)

lemma survey_request_target:
  "request_method (survey_request toISO r) = ''POST''"
  "url (survey_request toISO r) =
     ''https://chrome-experience-sampling.appspot.com/_ah/api/cesp/v1/submitsurvey''"
  by (simp_all add: survey_request_def SERVER_URL_def SUBMIT_SURVEY_ACTION_def Let_def)

text \<open>
  Claim C7. For every \<^verbatim>\<open>SurveyRecord\<close>, \<^verbatim>\<open>sendSurveyRecord\<close> sends a \<^verbatim>\<open>POST\<close> request to the
  submit-survey address whose body has \<open>date_taken\<close> equal to the ISO string of
  \<open>dateTaken\<close> without its last character when that is \<open>Z\<close>, \<open>participant_id\<close> equal to
  \<open>participantId\<close>, \<open>survey_type\<close> equal to \<open>type\<close>, and \<open>responses\<close> equal to the
  responses of the record, in their order.
\<close>

theorem sendSurveyRecord_request:
  "\<exists>request. fst (sendSurveyRecord toISO network (SurveyRecordObject r)) = Some request \<and>
     request_method request = ''POST'' \<and>
     url request = ''https://chrome-experience-sampling.appspot.com/_ah/api/cesp/v1/submitsurvey'' \<and>
     date_taken (body request) =
       (if toISO (dateTaken r) \<noteq> [] \<and> last (toISO (dateTaken r)) = CHR ''Z''
        then butlast (toISO (dateTaken r)) else toISO (dateTaken r)) \<and>
     participant_id (body request) = participantId r \<and>
     survey_type (body request) = type r \<and>
     responses (body request) = SurveyRecord.responses r"
proof -
  have "fst (sendSurveyRecord toISO network (SurveyRecordObject r)) = Some (survey_request toISO r)"
    by (simp add: Let_def)
  then show ?thesis
    by (simp add: survey_request_body survey_request_target)
qed

theorem sendSurveyRecord_request_witness:
  "\<exists>request.
     fst (sendSurveyRecord example_toISOString (\<lambda>q. OnLoad 204) (SurveyRecordObject example_survey)) =
       Some request \<and>
     request_method request = ''POST'' \<and>
     date_taken (body request) = ''1970-01-01T00:00:00.900'' \<and>
     participant_id (body request) = ''P0'' \<and>
     survey_type (body request) = ''testType'' \<and>
     responses (body request) =
       [\<lparr>question = ''q1'', answer = ''a1''\<rparr>, \<lparr>question = ''q2'', answer = ''a2''\<rparr>]"
  using sendSurveyRecord_request [of example_toISOString "\<lambda>q. OnLoad 204" example_survey]
  by (simp add: example_toISOString_def example_survey_def)

text \<open>
  Claim C4. For every \<^verbatim>\<open>SurveyRecord\<close>, the promise of \<^verbatim>\<open>sendSurveyRecord\<close> is fulfilled
  if and only if the request ends in a response with status 204; a response with any
  other status rejects it with that status, and a network error or a timeout rejects
  it (with the status 0 that the XHR object then has).
\<close>

theorem sendSurveyRecord_settles:
  "(snd (sendSurveyRecord toISO network (SurveyRecordObject r)) = Resolved) =
     (network (survey_request toISO r) = OnLoad 204) \<and>
   snd (sendSurveyRecord toISO network (SurveyRecordObject r)) =
     (case network (survey_request toISO r) of
        OnLoad s \<Rightarrow> if s = 204 then Resolved else Rejected (HttpStatus s)
      | OnError \<Rightarrow> Rejected (HttpStatus 0)
      | OnTimeout \<Rightarrow> Rejected (HttpStatus 0))"
  by (cases "network (survey_request toISO r)")
    (simp_all add: Let_def onLoadHandler_def onErrorHandler_def onTimeoutHandler_def)

theorem sendSurveyRecord_settles_witness:
  "snd (sendSurveyRecord example_toISOString (\<lambda>q. OnLoad 204) (SurveyRecordObject example_survey)) =
     Resolved \<and>
   snd (sendSurveyRecord example_toISOString (\<lambda>q. OnLoad 200) (SurveyRecordObject example_survey)) =
     Rejected (HttpStatus 200) \<and>
   snd (sendSurveyRecord example_toISOString (\<lambda>q. OnTimeout) (SurveyRecordObject example_survey)) =
     Rejected (HttpStatus 0)"
  using sendSurveyRecord_settles [of example_toISOString "\<lambda>q. OnLoad 204" example_survey]
    sendSurveyRecord_settles [of example_toISOString "\<lambda>q. OnLoad 200" example_survey]
    sendSurveyRecord_settles [of example_toISOString "\<lambda>q. OnTimeout" example_survey]
  by simp

subsection \<open>The queue processor\<close>

lemma cursor_onsuccess_map:
  "cursor_onsuccess es acc = acc @ map (\<lambda>e. QueuedSurveyObject (fst e) (surveyRecord (snd e))) es"
  by (induction es acc rule: cursor_onsuccess.induct) auto

lemma due_entries_mset:
  "mset (due_entries t st) = mset (filter (\<lambda>e. timeToSend (snd e) \<le> t) (objects st))"
  by (simp add: due_entries_def openCursor_def index_timeToSend_def upperBound_def)

lemma due_entries_sorted: "sorted (map (\<lambda>e. timeToSend (snd e)) (due_entries t st))"
  by (simp add: due_entries_def openCursor_def index_timeToSend_def sorted_filter)

lemma fold_reconcile: "fold (\<lambda>promise s. snd (reconcile env promise s)) ps st = st"
proof (induction ps)
  case Nil
  then show ?case by simp
next
  case (Cons p ps)
  then show ?case by (cases p) simp_all
qed

lemma processQueue_result:
  "processQueue env toISO network st =
     (if opens env
      then (Unsettled (Some TypeError), st,
            if succeeds env RequestOpenCursor then surveysToSubmit (Finite (now env)) st else [])
      else (Unsettled None, st, []))"
  by (simp add: processQueue_def withObjectStore_def fold_reconcile)

lemma processQueue_store: "fst (snd (processQueue env toISO network st)) = st"
  by (simp add: processQueue_result)

text \<open>
  Claim C6. For every store and every time \<open>now\<close>, the objects that \<^verbatim>\<open>processQueue\<close>
  hands to the submission client, when the database opens and the cursor runs, are
  built, one for one and in order, from the stored records with \<open>timeToSend \<le> now\<close>:
  each such record once, no other record, in ascending order of \<open>timeToSend\<close>. When the
  database does not open or the cursor fails, it hands over nothing.
\<close>

theorem processQueue_selects_due:
  "snd (snd (processQueue env toISO network st)) =
     (if opens env \<and> succeeds env RequestOpenCursor
      then map (\<lambda>e. QueuedSurveyObject (fst e) (surveyRecord (snd e)))
             (due_entries (Finite (now env)) st)
      else []) \<and>
   mset (due_entries (Finite (now env)) st) =
     mset (filter (\<lambda>e. timeToSend (snd e) \<le> Finite (now env)) (objects st)) \<and>
   set (due_entries (Finite (now env)) st) =
     {e \<in> set (objects st). timeToSend (snd e) \<le> Finite (now env)} \<and>
   sorted (map (\<lambda>e. timeToSend (snd e)) (due_entries (Finite (now env)) st))"
proof -
  have "set (due_entries (Finite (now env)) st) = set_mset (mset (due_entries (Finite (now env)) st))"
    by simp
  also have "\<dots> = {e \<in> set (objects st). timeToSend (snd e) \<le> Finite (now env)}"
    unfolding due_entries_mset by auto
  finally show ?thesis
    by (simp add: processQueue_result surveysToSubmit_def cursor_onsuccess_map due_entries_mset
        due_entries_sorted)
qed

theorem processQueue_selects_due_witness:
  "snd (snd (processQueue (working 1500) example_toISOString (\<lambda>q. OnLoad 204) example_store)) =
     [QueuedSurveyObject 1 example_survey] \<and>
   due_entries (Finite (now (working 1500))) example_store =
     [(1, \<lparr>surveyRecord = example_survey, timeToSend = Finite 1000, tries = 0\<rparr>)] \<and>
   snd (snd (processQueue (working 2000) example_toISOString (\<lambda>q. OnLoad 204) example_store)) =
     [QueuedSurveyObject 1 example_survey, QueuedSurveyObject 2 example_survey]"
proof -
  have due: "due_entries (Finite 1500) example_store =
     [(1, \<lparr>surveyRecord = example_survey, timeToSend = Finite 1000, tries = 0\<rparr>)]"
    "due_entries (Finite 2000) example_store =
     [(1, \<lparr>surveyRecord = example_survey, timeToSend = Finite 1000, tries = 0\<rparr>),
      (2, \<lparr>surveyRecord = example_survey, timeToSend = Finite 2000, tries = 0\<rparr>)]"
    by (simp_all add: due_entries_def openCursor_def upperBound_def index_timeToSend_def
        example_store_def)
  from processQueue_selects_due [of "working 1500" example_toISOString "\<lambda>q. OnLoad 204" example_store]
    processQueue_selects_due [of "working 2000" example_toISOString "\<lambda>q. OnLoad 204" example_store]
  show ?thesis
    by (simp add: working_def due)
qed

text \<open>
  Claim C1 asks that a survey whose delivery succeeds is deleted and one whose delivery
  fails is rescheduled. The queue processor does neither. With two due surveys in the
  store and a server that answers 204 to every request, it collects both, hands the
  collected objects (not their surveys) to \<^verbatim>\<open>sendSurveyRecord\<close>, which rejects both
  promises without sending a request, and the callbacks that should delete or
  reschedule stop at the undeclared \<^verbatim>\<open>id\<close>: the store is as it was.
\<close>

theorem processQueue_drops_outcomes:
  "surveysToSubmit (Finite 5000) example_store =
     [QueuedSurveyObject 1 example_survey, QueuedSurveyObject 2 example_survey] \<and>
   map (sendSurveyRecord example_toISOString (\<lambda>request. OnLoad 204))
     (surveysToSubmit (Finite 5000) example_store) =
     [(None, Rejected (Thrown TypeError)), (None, Rejected (Thrown TypeError))] \<and>
   processQueue (working 5000) example_toISOString (\<lambda>request. OnLoad 204) example_store =
     (Unsettled (Some TypeError), example_store,
      [QueuedSurveyObject 1 example_survey, QueuedSurveyObject 2 example_survey])"
proof -
  have sel: "surveysToSubmit (Finite 5000) example_store =
     [QueuedSurveyObject 1 example_survey, QueuedSurveyObject 2 example_survey]"
    by (simp add: surveysToSubmit_def due_entries_def openCursor_def upperBound_def
        index_timeToSend_def example_store_def)
  then have "processQueue (working 5000) example_toISOString (\<lambda>request. OnLoad 204) example_store =
     (Unsettled (Some TypeError), example_store,
      [QueuedSurveyObject 1 example_survey, QueuedSurveyObject 2 example_survey])"
    by (simp add: processQueue_def withObjectStore_def working_def fold_reconcile)
  with sel show ?thesis by simp
qed

subsection \<open>The alarm listener\<close>

lemma processQueueAlarm_other:
  "name alarm \<noteq> QUEUE_ALARM_NAME \<Longrightarrow> processQueueAlarm alarm st = (None, st)"
  by (simp add: processQueueAlarm_def)

text \<open>
  Claim C9 asks that the listener does nothing for an alarm of another name, which it
  does (\<open>processQueueAlarm_other\<close>), and that it runs the queue processor for the alarm
  of the queue. For that alarm the listener stops with a \<^verbatim>\<open>ReferenceError\<close> at the
  undeclared \<^verbatim>\<open>processQueue\<close>, and the queue processor does not run.
\<close>

theorem processQueueAlarm_queue_alarm:
  "processQueueAlarm \<lparr>name = ''surveySubmissionAlarm''\<rparr> st = (Some ReferenceError, st)"
  by (simp add: processQueueAlarm_def QUEUE_ALARM_NAME_def)

end
